theory Spec2Isabelle
  imports Main "HOL-Library.Sublist"
begin

section \<open>Go strings\<close>

text \<open>
  A Go string is a sequence of bytes, here a \<open>string\<close> (a list of 8-bit characters).
  Text outside ASCII is UTF-8: several bytes for one rune. The functions below are the
  ones \<open>transform\<close> in main.go calls from the packages \<open>strings\<close>, \<open>html\<close> and
  \<open>regexp\<close>, written at the byte level.
\<close>

subsection \<open>Package strings\<close>

definition HasPrefix :: "string \<Rightarrow> string \<Rightarrow> bool" where
  "HasPrefix s p = (take (length p) s = p)"

definition HasSuffix :: "string \<Rightarrow> string \<Rightarrow> bool" where
  "HasSuffix s p = (length p \<le> length s \<and> drop (length s - length p) s = p)"

text \<open>\<open>strings.Index\<close>: the first position where \<open>sub\<close> starts; Go's \<open>-1\<close> is \<open>None\<close>.\<close>

fun Index :: "string \<Rightarrow> string \<Rightarrow> nat option" where
  "Index [] sub = (if sub = [] then Some 0 else None)"
| "Index (c # cs) sub =
     (if HasPrefix (c # cs) sub then Some 0 else map_option Suc (Index cs sub))"

text \<open>\<open>strings.Trim\<close> with a cutset of ASCII characters.\<close>

definition Trim :: "string \<Rightarrow> string \<Rightarrow> string" where
  "Trim s cutset =
     rev (dropWhile (\<lambda>c. c \<in> set cutset) (rev (dropWhile (\<lambda>c. c \<in> set cutset) s)))"

text \<open>
  \<open>strings.TrimSpace\<close> removes the runes of \<open>unicode.IsSpace\<close> from both ends: the six
  ASCII ones, U+0085, U+00A0, U+1680, U+2000 to U+200A, U+2028, U+2029, U+202F, U+205F and
  U+3000, each in its UTF-8 encoding.
\<close>

definition space_runes :: "string list" where
  "space_runes =
     [[CHR 0x09], [CHR 0x0A], [CHR 0x0B], [CHR 0x0C], [CHR 0x0D], [CHR 0x20],
      [CHR 0xC2, CHR 0x85], [CHR 0xC2, CHR 0xA0], [CHR 0xE1, CHR 0x9A, CHR 0x80],
      [CHR 0xE2, CHR 0x80, CHR 0x80], [CHR 0xE2, CHR 0x80, CHR 0x81],
      [CHR 0xE2, CHR 0x80, CHR 0x82], [CHR 0xE2, CHR 0x80, CHR 0x83],
      [CHR 0xE2, CHR 0x80, CHR 0x84], [CHR 0xE2, CHR 0x80, CHR 0x85],
      [CHR 0xE2, CHR 0x80, CHR 0x86], [CHR 0xE2, CHR 0x80, CHR 0x87],
      [CHR 0xE2, CHR 0x80, CHR 0x88], [CHR 0xE2, CHR 0x80, CHR 0x89],
      [CHR 0xE2, CHR 0x80, CHR 0x8A], [CHR 0xE2, CHR 0x80, CHR 0xA8],
      [CHR 0xE2, CHR 0x80, CHR 0xA9], [CHR 0xE2, CHR 0x80, CHR 0xAF],
      [CHR 0xE2, CHR 0x81, CHR 0x9F], [CHR 0xE3, CHR 0x80, CHR 0x80]]"

definition lead_space :: "string \<Rightarrow> nat" where
  "lead_space s = (case find (HasPrefix s) space_runes of None \<Rightarrow> 0 | Some v \<Rightarrow> length v)"

definition trail_space :: "string \<Rightarrow> nat" where
  "trail_space s = (case find (HasSuffix s) space_runes of None \<Rightarrow> 0 | Some v \<Rightarrow> length v)"

lemma lead_space_le: "lead_space s \<le> length s"
proof (cases "find (HasPrefix s) space_runes")
  case None
  then show ?thesis by (simp add: lead_space_def)
next
  case (Some v)
  then have "HasPrefix s v" by (auto simp: find_Some_iff)
  then have "length v \<le> length s"
    by (metis HasPrefix_def length_take min.cobounded1)
  with Some show ?thesis by (simp add: lead_space_def)
qed

lemma trail_space_le: "trail_space s \<le> length s"
  by (auto simp: trail_space_def HasSuffix_def find_Some_iff split: option.splits)

function TrimLeftSpace :: "string \<Rightarrow> string" where
  "TrimLeftSpace s = (if lead_space s = 0 then s else TrimLeftSpace (drop (lead_space s) s))"
  by pat_completeness auto
termination
proof (relation "measure length")
  show "wf (measure length)" by simp
next
  fix s :: string
  assume "lead_space s \<noteq> 0"
  moreover have "lead_space s \<le> length s" by (rule lead_space_le)
  ultimately show "(drop (lead_space s) s, s) \<in> measure length" by simp
qed

function TrimRightSpace :: "string \<Rightarrow> string" where
  "TrimRightSpace s =
     (if trail_space s = 0 then s else TrimRightSpace (take (length s - trail_space s) s))"
  by pat_completeness auto
termination
proof (relation "measure length")
  show "wf (measure length)" by simp
next
  fix s :: string
  assume "trail_space s \<noteq> 0"
  moreover have "trail_space s \<le> length s" by (rule trail_space_le)
  ultimately show "(take (length s - trail_space s) s, s) \<in> measure length" by simp
qed

definition TrimSpace :: "string \<Rightarrow> string" where
  "TrimSpace s = TrimRightSpace (TrimLeftSpace s)"

text \<open>
  \<open>strings.ReplaceAll\<close> for a non-empty \<open>old\<close>: the occurrences are taken from left to
  right, without overlap, in one pass. (With an empty \<open>old\<close> Go inserts \<open>new\<close> between
  the runes; the program never does that and the model leaves the string as it is.)
\<close>

function ReplaceAll :: "string \<Rightarrow> string \<Rightarrow> string \<Rightarrow> string" where
  "ReplaceAll [] old new = []"
| "ReplaceAll (c # cs) old new =
     (if old \<noteq> [] \<and> HasPrefix (c # cs) old
      then new @ ReplaceAll (drop (length old) (c # cs)) old new
      else c # ReplaceAll cs old new)"
  by pat_completeness auto
termination
  by (relation "measure (\<lambda>(s, old, new). length s)") auto

text \<open>
  A slice expression \<open>s[i:]\<close> or \<open>s[:i]\<close> panics when \<open>i\<close> is beyond the length.
\<close>

datatype panic = SliceBoundsOutOfRange

definition slice_from :: "string \<Rightarrow> nat \<Rightarrow> panic + string" where
  "slice_from s i = (if i \<le> length s then Inr (drop i s) else Inl SliceBoundsOutOfRange)"

definition slice_to :: "string \<Rightarrow> nat \<Rightarrow> panic + string" where
  "slice_to s i = (if i \<le> length s then Inr (take i s) else Inl SliceBoundsOutOfRange)"

definition bind :: "panic + 'a \<Rightarrow> ('a \<Rightarrow> panic + 'b) \<Rightarrow> panic + 'b" where
  "bind x f = (case x of Inl e \<Rightarrow> Inl e | Inr v \<Rightarrow> f v)"

subsection \<open>Package html\<close>

text \<open>
  \<open>html.EscapeString\<close> escapes the five characters \<open>& ' < > "\<close>.
  \<open>html.UnescapeString\<close> decodes the entities of the HTML5 table, which is not part of
  this repository: it is the parameter \<open>unesc\<close> of \<open>stripTags\<close> and \<open>transform\<close>.
\<close>

definition escape_char :: "char \<Rightarrow> string" where
  \<open>escape_char c =
     (if c = CHR ''&'' then ''&amp;''
      else if c = CHR 0x27 then ''&#39;''
      else if c = CHR ''<'' then ''&lt;''
      else if c = CHR ''>'' then ''&gt;''
      else if c = CHR 0x22 then ''&#34;''
      else [c])\<close>

definition EscapeString :: "string \<Rightarrow> string" where
  "EscapeString s = concat (map escape_char s)"

subsection \<open>Runes\<close>

text \<open>
  \<open>for _, r := range s\<close> decodes one rune at a time. \<open>rune_len s\<close> is the width of the
  valid UTF-8 encoding at the head of \<open>s\<close>, and 0 where the head is not one: the loop
  then yields U+FFFD and moves on by one byte.
\<close>

definition byte_in :: "string \<Rightarrow> nat \<Rightarrow> nat \<Rightarrow> nat \<Rightarrow> bool" where
  "byte_in s i lo hi = (i < length s \<and> lo \<le> of_char (s ! i) \<and> of_char (s ! i) \<le> (hi::nat))"

definition rune_len :: "string \<Rightarrow> nat" where
  "rune_len s =
     (if byte_in s 0 0x00 0x7F then 1
      else if byte_in s 0 0xC2 0xDF \<and> byte_in s 1 0x80 0xBF then 2
      else if byte_in s 0 0xE0 0xE0 \<and> byte_in s 1 0xA0 0xBF \<and> byte_in s 2 0x80 0xBF then 3
      else if byte_in s 0 0xE1 0xEC \<and> byte_in s 1 0x80 0xBF \<and> byte_in s 2 0x80 0xBF then 3
      else if byte_in s 0 0xED 0xED \<and> byte_in s 1 0x80 0x9F \<and> byte_in s 2 0x80 0xBF then 3
      else if byte_in s 0 0xEE 0xEF \<and> byte_in s 1 0x80 0xBF \<and> byte_in s 2 0x80 0xBF then 3
      else if byte_in s 0 0xF0 0xF0 \<and> byte_in s 1 0x90 0xBF \<and> byte_in s 2 0x80 0xBF
              \<and> byte_in s 3 0x80 0xBF then 4
      else if byte_in s 0 0xF1 0xF3 \<and> byte_in s 1 0x80 0xBF \<and> byte_in s 2 0x80 0xBF
              \<and> byte_in s 3 0x80 0xBF then 4
      else if byte_in s 0 0xF4 0xF4 \<and> byte_in s 1 0x80 0x8F \<and> byte_in s 2 0x80 0xBF
              \<and> byte_in s 3 0x80 0xBF then 4
      else 0)"

definition RuneError :: string where
  "RuneError = [CHR 0xEF, CHR 0xBF, CHR 0xBD]"

section \<open>Package regexp\<close>

text \<open>
  The patterns of main.go use literals, character classes, \<open>*\<close>, \<open>+\<close> and \<open>*?\<close> on
  character classes only, one optional group, capture groups and \<open>\b\<close>, all under the
  flags \<open>(?is)\<close>. Go gives the leftmost match and, at that position, the one a
  backtracking search finds first; \<open>run\<close> lists the ways a pattern can match at the head
  of the input in that order of preference.

  A literal matches its letter in either case, and, as Go folds case by
  \<open>unicode.SimpleFold\<close>, \<open>k\<close> also matches U+212A and \<open>s\<close> also matches U+017F.
  A class takes one byte: every class of the program is followed by an ASCII literal
  (after \<open>\b\<close> at most), which can only match where a rune starts, so that matching bytes
  and matching runes give the same matches.
\<close>

datatype cls = AnyChar | OneOf string | NoneOf string

datatype re =
    Lit char
  | Cls cls
  | Star cls bool
  | Seq re re
  | Opt re
  | Grp nat re
  | WordB
  | Eps

fun in_cls :: "cls \<Rightarrow> char \<Rightarrow> bool" where
  "in_cls AnyChar c = True"
| "in_cls (OneOf cs) c = (c \<in> set cs)"
| "in_cls (NoneOf cs) c = (c \<notin> set cs)"

definition lower :: string where "lower = ''abcdefghijklmnopqrstuvwxyz''"
definition upper :: string where "upper = ''ABCDEFGHIJKLMNOPQRSTUVWXYZ''"
definition digits :: string where "digits = ''0123456789''"

definition fold_variants :: "char \<Rightarrow> string list" where
  "fold_variants c =
     (if c = CHR ''k'' \<or> c = CHR ''K'' then [''k'', ''K'', [CHR 0xE2, CHR 0x84, CHR 0xAA]]
      else if c = CHR ''s'' \<or> c = CHR ''S'' then [''s'', ''S'', [CHR 0xC5, CHR 0xBF]]
      else case map_of (zip (lower @ upper) (upper @ lower)) c of
             Some d \<Rightarrow> [[c], [d]]
           | None \<Rightarrow> [[c]])"

definition is_word :: "char option \<Rightarrow> bool" where
  "is_word x = (case x of None \<Rightarrow> False | Some c \<Rightarrow> c \<in> set (lower @ upper @ digits @ ''_''))"

definition first_char :: "string \<Rightarrow> char option" where
  "first_char s = (case s of [] \<Rightarrow> None | c # cs \<Rightarrow> Some c)"

text \<open>
  A state of the search: the byte before the position (for \<open>\b\<close>), the input still to
  read, and the capture groups closed so far.
\<close>

type_synonym groups = "nat \<Rightarrow> string option"
type_synonym mstate = "char option \<times> string \<times> groups"

fun star_states :: "cls \<Rightarrow> char option \<Rightarrow> string \<Rightarrow> groups \<Rightarrow> mstate list" where
  "star_states k p [] g = [(p, [], g)]"
| "star_states k p (c # cs) g =
     (p, c # cs, g) # (if in_cls k c then star_states k (Some c) cs g else [])"

fun run :: "re \<Rightarrow> mstate \<Rightarrow> mstate list" where
  "run (Lit c) (p, s, g) =
     (case find (HasPrefix s) (fold_variants c) of
        None \<Rightarrow> []
      | Some v \<Rightarrow> [(Some (last v), drop (length v) s, g)])"
| "run (Cls k) (p, s, g) =
     (case s of [] \<Rightarrow> [] | c # cs \<Rightarrow> if in_cls k c then [(Some c, cs, g)] else [])"
| "run (Star k greedy) (p, s, g) =
     (if greedy then rev (star_states k p s g) else star_states k p s g)"
| "run (Seq a b) st = concat (map (run b) (run a st))"
| "run (Opt a) st = run a st @ [st]"
| "run (Grp i a) (p, s, g) =
     map (\<lambda>(p', s', g'). (p', s', g'(i \<mapsto> take (length s - length s') s))) (run a (p, s, g))"
| "run WordB (p, s, g) = (if is_word p \<noteq> is_word (first_char s) then [(p, s, g)] else [])"
| "run Eps st = [st]"

text \<open>
  The match at the head of \<open>s\<close>: the text matched and the groups. Every pattern of the
  program starts with a literal, so none of them matches the empty string
  (\<open>run_starts_lit\<close> below), and the search treats an empty match as none.
\<close>

definition match_at :: "re \<Rightarrow> char option \<Rightarrow> string \<Rightarrow> (string \<times> groups) option" where
  "match_at r p s =
     (case run r (p, s, Map.empty) of
        [] \<Rightarrow> None
      | (p', s', g) # _ \<Rightarrow>
          if length s' < length s then Some (take (length s - length s') s, g) else None)"

definition group :: "groups \<Rightarrow> nat \<Rightarrow> string" where
  "group g i = (case g i of None \<Rightarrow> [] | Some s \<Rightarrow> s)"

text \<open>Helpers to write a pattern down as it reads.\<close>

definition cat :: "re list \<Rightarrow> re" where
  "cat rs = foldr Seq rs Eps"

definition lit :: "string \<Rightarrow> re" where
  "lit s = cat (map Lit s)"

definition plus :: "cls \<Rightarrow> re" where
  "plus k = Seq (Cls k) (Star k True)"

definition space :: cls where
  "space = OneOf [CHR 0x09, CHR 0x0A, CHR 0x0C, CHR 0x0D, CHR 0x20]"

definition digit :: cls where
  "digit = OneOf digits"

text \<open>
  The leftmost match from a position on (\<open>FindStringSubmatch\<close>), and the pieces Go's
  replacement loop cuts a string into: the bytes no match covers, and the matches.
\<close>

fun find_from :: "re \<Rightarrow> char option \<Rightarrow> string \<Rightarrow> (string \<times> groups) option" where
  "find_from r p [] = None"
| "find_from r p (c # cs) =
     (case match_at r p (c # cs) of
        Some mg \<Rightarrow> Some mg
      | None \<Rightarrow> find_from r (Some c) cs)"

definition FindStringSubmatch :: "re \<Rightarrow> string \<Rightarrow> (string \<times> groups) option" where
  "FindStringSubmatch r s = find_from r None s"

datatype piece = Txt char | Hit string groups

lemma match_at_length:
  "match_at r p s = Some (m, g) \<Longrightarrow> m \<noteq> [] \<and> length m \<le> length s \<and> m = take (length m) s"
  by (auto simp: match_at_def split: list.splits if_splits)

function scan :: "re \<Rightarrow> char option \<Rightarrow> string \<Rightarrow> piece list" where
  "scan r p [] = []"
| "scan r p (c # cs) =
     (case match_at r p (c # cs) of
        None \<Rightarrow> Txt c # scan r (Some c) cs
      | Some (m, g) \<Rightarrow> Hit m g # scan r (Some (last m)) (drop (length m) (c # cs)))"
  by pat_completeness auto
termination
proof (relation "measure (\<lambda>(r, p, s). length s)")
  show "wf (measure (\<lambda>(r, p, s). length s))" by simp
next
  fix r p c cs
  show "((r, Some c, cs), (r, p, c # cs)) \<in> measure (\<lambda>(r, p, s). length s)" by simp
next
  fix r :: re and p c cs x2 m g
  assume "match_at r p (c # cs) = Some x2" and "(m, g) = x2"
  then have "m \<noteq> []" using match_at_length by metis
  then show "((r, Some (last m), drop (length m) (c # cs)), (r, p, c # cs))
             \<in> measure (\<lambda>(r, p, s). length s)"
    by (cases m) auto
qed

text \<open>
  A replacement template, already parsed: \<open>$1\<close> is \<open>TGrp 1\<close> (in the templates of the
  program the character after \<open>$1\<close> is a quote or the end, so the name of the group is
  \<open>1\<close>).
\<close>

datatype titem = TLit string | TGrp nat

definition expand :: "titem list \<Rightarrow> groups \<Rightarrow> string" where
  "expand t g = concat (map (\<lambda>i. case i of TLit s \<Rightarrow> s | TGrp n \<Rightarrow> group g n) t)"

definition render :: "titem list \<Rightarrow> piece \<Rightarrow> string" where
  "render t x = (case x of Txt c \<Rightarrow> [c] | Hit m g \<Rightarrow> expand t g)"

definition ReplaceAllString :: "re \<Rightarrow> string \<Rightarrow> titem list \<Rightarrow> string" where
  "ReplaceAllString r s t = concat (map (render t) (scan r None s))"

text \<open>
  \<open>ReplaceAllStringFunc\<close> calls its function on each match in turn. The function of the
  cloze step assigns to the variable \<open>ja\<close> of \<open>transform\<close>, so the function here takes
  and returns that state.
\<close>

fun replace_pieces :: "('s \<Rightarrow> string \<Rightarrow> 's \<times> string) \<Rightarrow> 's \<Rightarrow> piece list \<Rightarrow> 's \<times> string" where
  "replace_pieces f st [] = (st, [])"
| "replace_pieces f st (Txt c # ps) =
     (let (st', out) = replace_pieces f st ps in (st', c # out))"
| "replace_pieces f st (Hit m g # ps) =
     (let (st1, rep) = f st m;
          (st2, out) = replace_pieces f st1 ps
      in (st2, rep @ out))"

definition ReplaceAllStringFunc ::
    "re \<Rightarrow> string \<Rightarrow> ('s \<Rightarrow> string \<Rightarrow> 's \<times> string) \<Rightarrow> 's \<Rightarrow> 's \<times> string" where
  "ReplaceAllStringFunc r s f st = replace_pieces f st (scan r None s)"


section \<open>The patterns of main.go\<close>

definition reStyleBlock :: re where
  \<open>reStyleBlock = cat [lit ''<style'', Star AnyChar False, lit ''>'', Star AnyChar False,
                        lit ''</style>'']\<close>

definition reTransDiv :: re where
  \<open>reTransDiv = cat [lit ''<div'', plus space, lit ''class="dc-line'', plus space,
                      lit ''dc-translation'', Star (NoneOf ''"'') True, lit ''"'',
                      Star space True, lit ''>'', Grp 1 (Star AnyChar False), lit ''</div>'']\<close>

definition reAnyTranslation :: re where
  \<open>reAnyTranslation = cat [lit ''<'', plus (NoneOf ''>''), lit ''class="'',
                            Star (NoneOf ''"'') True, WordB, lit ''dc-translation'', WordB,
                            Star (NoneOf ''"'') True, lit ''"'', Star (NoneOf ''>'') True,
                            lit ''>'', Grp 1 (Star AnyChar False), lit ''</'',
                            plus (NoneOf ''>''), lit ''>'']\<close>

definition reCloze :: re where
  \<open>reCloze = cat [lit ''{{c'', plus digit, lit ''::'', Grp 1 (Star AnyChar False),
                   Opt (cat [lit ''::'', Grp 2 (Star AnyChar False)]), lit ''}}'']\<close>

definition reImage :: re where
  \<open>reImage = cat [lit ''<div'', plus space, lit ''class="'',
                   Grp 1 (cat [Star (NoneOf ''"'') True, WordB, lit ''dc-image'',
                               Star (NoneOf ''"'') True]),
                   lit ''"'', plus space, lit ''style="'', Grp 2 (Star (NoneOf ''"'') False),
                   lit ''"'', Star space True, lit ''></div>'']\<close>

definition reBgImage :: re where
  \<open>reBgImage = cat [lit ''background-image'', Star space True, lit '':'', Star space True,
                     lit ''url('', Grp 1 (plus (NoneOf '')'')), lit '')'']\<close>

definition reCardDiv :: re where
  \<open>reCardDiv = cat [lit ''<div'', plus space, lit ''class="'',
                     Grp 1 (cat [Star (NoneOf ''"'') True, WordB, lit ''dc-card'',
                                 Star (NoneOf ''"'') True]),
                     lit ''"'', Grp 2 (Star AnyChar False), lit ''>'']\<close>

definition reUnwrap :: "string \<Rightarrow> re" where
  \<open>reUnwrap name = cat [lit ''<span'', Star (NoneOf ''>'') True, lit ''class="'',
                         Star (NoneOf ''"'') True, WordB, lit name, WordB,
                         Star (NoneOf ''"'') True, lit ''"'', Star (NoneOf ''>'') True,
                         lit ''>'', Grp 1 (Star AnyChar False), lit ''</span>'']\<close>

definition reUnwrapDown :: re where
  "reUnwrapDown = reUnwrap ''dc-down''"

definition reUnwrapGap :: re where
  "reUnwrapGap = reUnwrap ''dc-gap''"









section \<open>Facts about matching\<close>


lemma fold_variants_nonempty: "v \<in> set (fold_variants c) \<Longrightarrow> v \<noteq> []"
  by (auto simp: fold_variants_def split: if_splits option.splits)

lemma HasPrefix_length: "HasPrefix s v \<Longrightarrow> length v \<le> length s"
  by (metis HasPrefix_def length_take min.cobounded1)

lemma star_states_shorter:
  "(p', s', g') \<in> set (star_states k p s g) \<Longrightarrow> length s' \<le> length s \<and> g' = g"
  by (induction k p s g rule: star_states.induct) (auto split: if_splits)

lemma run_shorter:
  "(p', s', g') \<in> set (run r (p, s, g)) \<Longrightarrow>
     length s' \<le> length s \<and> (g' i = g i \<or> length (group g' i) \<le> length s - length s')"
proof (induction r arbitrary: p s g p' s' g')
  case (Lit c)
  then show ?case
    by (auto split: option.splits)
next
  case (Cls k)
  then show ?case by (auto split: list.splits if_splits)
next
  case (Star k greedy)
  then show ?case by (auto split: if_splits dest: star_states_shorter)
next
  case (Seq a b)
  from Seq.prems obtain p1 s1 g1 where
    a: "(p1, s1, g1) \<in> set (run a (p, s, g))" and b: "(p', s', g') \<in> set (run b (p1, s1, g1))"
    by auto
  have "g' i = g1 i \<Longrightarrow> group g' i = group g1 i" by (simp add: group_def)
  with Seq.IH(1)[OF a] Seq.IH(2)[OF b] show ?case by auto
next
  case (Opt a)
  from Opt.prems have "(p', s', g') \<in> set (run a (p, s, g)) \<or> (p', s', g') = (p, s, g)"
    by auto
  then show ?case using Opt.IH by blast
next
  case (Grp j a)
  from Grp.prems obtain g0 where
    a: "(p', s', g0) \<in> set (run a (p, s, g))" and
    g': "g' = g0(j \<mapsto> take (length s - length s') s)"
    by auto
  from Grp.IH[OF a] g' show ?case by (auto simp: group_def)
next
  case WordB
  then show ?case by (auto split: if_splits)
next
  case Eps
  then show ?case by auto
qed

lemma run_Lit_shorter:
  "(p', s', g') \<in> set (run (Lit c) (p, s, g)) \<Longrightarrow> length s' < length s \<and> g' = g"
proof -
  assume a: "(p', s', g') \<in> set (run (Lit c) (p, s, g))"
  then obtain v where v: "find (HasPrefix s) (fold_variants c) = Some v"
    by (cases "find (HasPrefix s) (fold_variants c)") auto
  with a have eq: "s' = drop (length v) s" "g' = g" by auto
  from v have "v \<in> set (fold_variants c)" and "HasPrefix s v"
    by (auto simp: find_Some_iff)
  then have "v \<noteq> []" and "length v \<le> length s"
    using fold_variants_nonempty HasPrefix_length by blast+
  with eq show ?thesis by (cases v) auto
qed

lemma cat_Cons: "cat (x # xs) = Seq x (cat xs)"
  by (simp add: cat_def)

lemma lit_Cons: "lit (c # v) = Seq (Lit c) (lit v)"
  by (simp add: lit_def cat_def)

lemma set_run_Seq: "set (run (Seq a b) st) = (\<Union>y \<in> set (run a st). set (run b y))"
  by simp

lemma run_lit_same:
  "(p', s', g') \<in> set (run (lit v) (p, s, g)) \<Longrightarrow> length s' \<le> length s \<and> g' = g"
proof (induction v arbitrary: p s g)
  case Nil
  then show ?case by (simp add: lit_def cat_def)
next
  case (Cons c v)
  from Cons.prems obtain y1 where
    "y1 \<in> set (run (Lit c) (p, s, g))" and "(p', s', g') \<in> set (run (lit v) y1)"
    unfolding lit_Cons set_run_Seq by blast
  moreover obtain p1 s1 g1 where "y1 = (p1, s1, g1)"
    by (cases y1) blast
  ultimately have
    a: "(p1, s1, g1) \<in> set (run (Lit c) (p, s, g))" and
    b: "(p', s', g') \<in> set (run (lit v) (p1, s1, g1))"
    by blast+
  from run_Lit_shorter[OF a] Cons.IH[OF b] show ?case by auto
qed

text \<open>
  In a match of a pattern that starts with a literal, every group is shorter than the
  match.
\<close>

lemma match_at_group_shorter:
  assumes "match_at (cat (lit (c # v) # rs)) p s = Some (m, g)"
  shows "length (group g i) < length m"
proof -
  from assms obtain p' s' xs where
    r: "run (cat (lit (c # v) # rs)) (p, s, Map.empty) = (p', s', g) # xs" and
    m: "m = take (length s - length s') s" and lt: "length s' < length s"
    by (auto simp: match_at_def split: list.splits if_splits)
  from r have hd: "(p', s', g) \<in> set (run (cat (lit (c # v) # rs)) (p, s, Map.empty))"
    by simp
  from hd obtain y1 y2 where
    "y1 \<in> set (run (Lit c) (p, s, Map.empty))" and
    "y2 \<in> set (run (lit v) y1)" and
    "(p', s', g) \<in> set (run (cat rs) y2)"
    unfolding cat_Cons lit_Cons set_run_Seq by blast
  moreover obtain p1 s1 g1 p2 s2 g2 where "y1 = (p1, s1, g1)" and "y2 = (p2, s2, g2)"
    by (cases y1, cases y2) blast
  ultimately have
    a: "(p1, s1, g1) \<in> set (run (Lit c) (p, s, Map.empty))" and
    b: "(p2, s2, g2) \<in> set (run (lit v) (p1, s1, g1))" and
    c: "(p', s', g) \<in> set (run (cat rs) (p2, s2, g2))"
    by blast+
  from run_Lit_shorter[OF a] have 1: "length s1 < length s" "g1 = Map.empty" by auto
  from run_lit_same[OF b] 1 have 2: "length s2 < length s" "g2 = Map.empty" by auto
  from run_shorter[OF c, of i] 2
  have "length s' \<le> length s2" and "g i = None \<or> length (group g i) \<le> length s2 - length s'"
    by auto
  with 2 m lt show ?thesis by (auto simp: group_def)
qed


definition piece_text :: "piece \<Rightarrow> string" where
  "piece_text x = (case x of Txt c \<Rightarrow> [c] | Hit m g \<Rightarrow> m)"

lemma piece_text_simps [simp]: "piece_text (Txt c) = [c]" "piece_text (Hit m g) = m"
  by (simp_all add: piece_text_def)

lemma scan_text: "concat (map piece_text (scan r p s)) = s"
proof (induction r p s rule: scan.induct)
  case (1 r p)
  then show ?case by simp
next
  case (2 r p c cs)
  show ?case
  proof (cases "match_at r p (c # cs)")
    case None
    with 2 show ?thesis by simp
  next
    case (Some mg)
    obtain m g where mg: "mg = (m, g)" by (cases mg)
    from Some mg have "m = take (length m) (c # cs)"
      using match_at_length by blast
    then have "m @ drop (length m) (c # cs) = c # cs"
      by (metis append_take_drop_id)
    moreover from 2(2)[OF Some mg[symmetric]]
    have "concat (map piece_text (scan r (Some (last m)) (drop (length m) (c # cs))))
          = drop (length m) (c # cs)" .
    ultimately show ?thesis using Some mg by simp
  qed
qed

lemma scan_hit_match:
  "Hit m g \<in> set (scan r p s) \<Longrightarrow> \<exists>p' s'. match_at r p' s' = Some (m, g)"
proof (induction r p s rule: scan.induct)
  case (1 r p)
  then show ?case by simp
next
  case (2 r p c cs)
  show ?case
  proof (cases "match_at r p (c # cs)")
    case None
    with 2 show ?thesis by auto
  next
    case (Some mg)
    obtain m0 g0 where mg: "mg = (m0, g0)" by (cases mg)
    from "2.prems" Some mg
    have "Hit m g = Hit m0 g0 \<or> Hit m g \<in> set (scan r (Some (last m0)) (drop (length m0) (c # cs)))"
      by simp
    then show ?thesis
    proof
      assume "Hit m g = Hit m0 g0"
      with Some mg show ?thesis by auto
    next
      assume "Hit m g \<in> set (scan r (Some (last m0)) (drop (length m0) (c # cs)))"
      with 2(2)[OF Some mg[symmetric]] show ?thesis .
    qed
  qed
qed


lemma render_simps [simp]: "render t (Txt c) = [c]" "render t (Hit m g) = expand t g"
  by (simp_all add: render_def)


lemma render_shorter:
  assumes "\<And>m g. Hit m g \<in> set ps \<Longrightarrow> length (expand t g) < length m"
  shows "length (concat (map (render t) ps)) \<le> length (concat (map piece_text ps)) \<and>
         (length (concat (map (render t) ps)) = length (concat (map piece_text ps)) \<longrightarrow>
            concat (map (render t) ps) = concat (map piece_text ps))"
  using assms
proof (induction ps)
  case Nil
  then show ?case by simp
next
  case (Cons x ps)
  then have ih: "length (concat (map (render t) ps)) \<le> length (concat (map piece_text ps)) \<and>
         (length (concat (map (render t) ps)) = length (concat (map piece_text ps)) \<longrightarrow>
            concat (map (render t) ps) = concat (map piece_text ps))"
    by simp
  show ?case
  proof (cases x)
    case (Txt c)
    with ih show ?thesis by simp
  next
    case (Hit m g)
    with Cons.prems have "length (expand t g) < length m" by simp
    with ih Hit show ?thesis by simp
  qed
qed

lemma expand_TGrp [simp]: "expand [TGrp i] g = group g i"
  by (simp add: expand_def)

lemma ReplaceAllString_group_shorter:
  fixes r :: re
  assumes r: "r = cat (lit (c # v) # rs)"
  shows "length (ReplaceAllString r s [TGrp i]) \<le> length s"
    and "ReplaceAllString r s [TGrp i] \<noteq> s \<Longrightarrow> length (ReplaceAllString r s [TGrp i]) < length s"
proof -
  have hit: "\<And>m g. Hit m g \<in> set (scan r None s) \<Longrightarrow> length (expand [TGrp i] g) < length m"
  proof -
    fix m g
    assume "Hit m g \<in> set (scan r None s)"
    then obtain p' s' where "match_at r p' s' = Some (m, g)"
      using scan_hit_match by blast
    then show "length (expand [TGrp i] g) < length m"
      unfolding r using match_at_group_shorter by simp
  qed
  note sh = render_shorter[of "scan r None s" "[TGrp i]", OF hit, unfolded scan_text]
  show "length (ReplaceAllString r s [TGrp i]) \<le> length s"
    using sh by (simp add: ReplaceAllString_def)
  show "ReplaceAllString r s [TGrp i] \<noteq> s \<Longrightarrow> length (ReplaceAllString r s [TGrp i]) < length s"
    using sh by (auto simp: ReplaceAllString_def)
qed


section \<open>stripTags and transform\<close>

fun strip_runes :: "bool \<Rightarrow> string \<Rightarrow> string" where
  "strip_runes inTag [] = []"
| "strip_runes inTag (c # cs) =
     (if c = CHR ''<'' then strip_runes True cs
      else if c = CHR ''>'' then strip_runes False cs
      else let n = rune_len (c # cs) in
        if n = 0 then (if inTag then [] else RuneError) @ strip_runes inTag cs
        else (if inTag then [] else take n (c # cs)) @ strip_runes inTag (drop (n - 1) cs))"

definition stripTags :: "(string \<Rightarrow> string) \<Rightarrow> string \<Rightarrow> string" where
  "stripTags unesc s = TrimSpace (unesc (strip_runes False s))"

text \<open>Step 1 of \<open>transform\<close>: the style blocks are removed.\<close>

definition strip_style :: "string \<Rightarrow> string" where
  "strip_style h = ReplaceAllString reStyleBlock h []"

text \<open>
  Step 2: the translation, from the \<open>dc-line dc-translation\<close> div first (all such divs
  are then removed), from any element of class \<open>dc-translation\<close> when \<open>ja\<close> is still
  empty. The result is \<open>(ja, h)\<close>.
\<close>

definition extract_translation :: "(string \<Rightarrow> string) \<Rightarrow> string \<Rightarrow> string \<times> string" where
  "extract_translation unesc h =
     (let (ja, h) =
            (case FindStringSubmatch reTransDiv h of
               Some (m, g) \<Rightarrow>
                 (TrimSpace (stripTags unesc (group g 1)), ReplaceAllString reTransDiv h [])
             | None \<Rightarrow> ([], h));
          ja = (if ja = [] then
                  (case FindStringSubmatch reAnyTranslation h of
                     Some (m, g) \<Rightarrow> TrimSpace (stripTags unesc (group g 1))
                   | None \<Rightarrow> ja)
                else ja)
      in (ja, h))"

text \<open>
  Step 3: the function \<open>transform\<close> gives to \<open>ReplaceAllStringFunc\<close> for a cloze
  marker \<open>s\<close>. It reads and writes \<open>ja\<close>.
\<close>

definition cloze_func :: "(string \<Rightarrow> string) \<Rightarrow> string \<Rightarrow> string \<Rightarrow> string \<Rightarrow> string \<times> string" where
  \<open>cloze_func unesc color ja s =
     (let g = FindStringSubmatch reCloze s;
          front = (case g of Some (m, g) \<Rightarrow> group g 1 | None \<Rightarrow> []);
          back = (case g of Some (m, g) \<Rightarrow> group g 2 | None \<Rightarrow> []);
          ja = (if ja = [] \<and> TrimSpace back \<noteq> [] then TrimSpace (stripTags unesc back)
                else ja);
          plain = TrimSpace (stripTags unesc front)
      in (ja, if plain = [] then []
              else ''<span style="color:'' @ color @ '';">'' @ EscapeString plain @ ''</span>''))\<close>

definition cloze_step :: "(string \<Rightarrow> string) \<Rightarrow> string \<Rightarrow> string \<Rightarrow> string \<Rightarrow> string \<times> string" where
  "cloze_step unesc color ja h = ReplaceAllStringFunc reCloze h (cloze_func unesc color) ja"

text \<open>Step 3.5: the \<open>dc-down\<close> and \<open>dc-gap\<close> spans are unwrapped until nothing changes.\<close>

definition unwrap_pass :: "string \<Rightarrow> string" where
  "unwrap_pass h = ReplaceAllString reUnwrapGap (ReplaceAllString reUnwrapDown h [TGrp 1]) [TGrp 1]"

lemma reUnwrap_shape: "\<exists>c v rs. reUnwrap name = cat (lit (c # v) # rs)"
  unfolding reUnwrap_def by blast

lemma unwrap_pass_shorter: "unwrap_pass h \<noteq> h \<Longrightarrow> length (unwrap_pass h) < length h"
proof -
  assume ne: "unwrap_pass h \<noteq> h"
  obtain c v rs where d: "reUnwrapDown = cat (lit (c # v) # rs)"
    unfolding reUnwrapDown_def using reUnwrap_shape by blast
  obtain c' v' rs' where g: "reUnwrapGap = cat (lit (c' # v') # rs')"
    unfolding reUnwrapGap_def using reUnwrap_shape by blast
  let ?h1 = "ReplaceAllString reUnwrapDown h [TGrp 1]"
  have 1: "length ?h1 \<le> length h" by (rule ReplaceAllString_group_shorter(1)[OF d])
  have 2: "length (unwrap_pass h) \<le> length ?h1"
    unfolding unwrap_pass_def by (rule ReplaceAllString_group_shorter(1)[OF g])
  show ?thesis
  proof (cases "?h1 = h")
    case True
    with ne have "ReplaceAllString reUnwrapGap h [TGrp 1] \<noteq> h" by (simp add: unwrap_pass_def)
    from ReplaceAllString_group_shorter(2)[OF g this] True show ?thesis
      by (simp add: unwrap_pass_def)
  next
    case False
    from ReplaceAllString_group_shorter(2)[OF d False] 2 show ?thesis by simp
  qed
qed

function unwrap_loop :: "string \<Rightarrow> string" where
  "unwrap_loop h = (let h0 = h; h = unwrap_pass h in if h = h0 then h else unwrap_loop h)"
  by pat_completeness auto
termination
proof (relation "measure length")
  show "wf (measure length)" by simp
next
  fix h h0 x
  assume "h0 = h" "x = unwrap_pass h" "x \<noteq> h0"
  then show "(x, h) \<in> measure length" using unwrap_pass_shorter by simp
qed


declare unwrap_loop.simps [simp del]

text \<open>Step 4: the \<open>dc-card\<close> divs.\<close>

definition card_step :: "string \<Rightarrow> string" where
  \<open>card_step h =
     ReplaceAllString reCardDiv h
       [TLit ''<div class="'', TGrp 1, TLit ''" style="padding-bottom:1rem;">'']\<close>

text \<open>Step 5: the image boxes.\<close>

fun Join :: "string list \<Rightarrow> string \<Rightarrow> string" where
  "Join [] sep = []"
| "Join [x] sep = x"
| "Join (x # y # ys) sep = x @ sep @ Join (y # ys) sep"

definition image_func :: "string \<Rightarrow> string" where
  \<open>image_func s =
     (case FindStringSubmatch reImage s of
        None \<Rightarrow> s
      | Some (m, p) \<Rightarrow>
          (let class = group p 1;
               style = group p 2;
               bg = (case FindStringSubmatch reBgImage style of
                       None \<Rightarrow> []
                     | Some (m0, g0) \<Rightarrow> if HasSuffix m0 '';'' then m0 else m0 @ '';'');
               newStyle = Join [''display:inline-block'', ''width:calc(50% - 10px)'',
                                ''padding-bottom:29%'', ''background-position:center'',
                                ''background-repeat:no-repeat'', ''background-size:cover'',
                                ''margin-left:2px'', ''margin-right:2px''] '';'' @ '';'';
               newStyle = newStyle @ bg
           in ''<div class="'' @ class @ ''" style="'' @ newStyle @ ''"></div>''))\<close>

definition image_step :: "string \<Rightarrow> string" where
  "image_step h = snd (ReplaceAllStringFunc reImage h (\<lambda>u s. (u, image_func s)) ())"

text \<open>Step 6: the sound goes under the first \<open>dc-line\<close> div.\<close>

definition audio_step :: "string \<Rightarrow> string \<Rightarrow> panic + string" where
  \<open>audio_step sound h =
     (let s = Trim sound ''" '' in
      if s \<noteq> [] then
        bind (if \<not> HasPrefix s ''[sound:'' then
                (case Index s ''[sound:'' of Some i \<Rightarrow> slice_from s i | None \<Rightarrow> Inr s)
              else Inr s)
          (\<lambda>ss.
            case Index h ''<div class="dc-line"'' of
              None \<Rightarrow> Inr h
            | Some idx \<Rightarrow>
                bind (slice_from h idx) (\<lambda>tl.
                  case Index tl ''</div>'' of
                    None \<Rightarrow> Inr h
                  | Some end \<Rightarrow>
                      (let insert = idx + end + length ''</div>'';
                           audio = ''<div class="dc-audio" style="padding:0.4rem;margin-top:0.25rem;">''
                                   @ ss @ ''</div>''
                       in bind (slice_to h insert) (\<lambda>a.
                            bind (slice_from h insert) (\<lambda>b. Inr (a @ audio @ b))))))
      else Inr h)\<close>

definition transform ::
    "(string \<Rightarrow> string) \<Rightarrow> string \<Rightarrow> string \<Rightarrow> string \<Rightarrow> panic + (string \<times> string)" where
  "transform unesc h sound color =
     (let h = strip_style h;
          (ja, h) = extract_translation unesc h;
          (ja, h) = cloze_step unesc color ja h;
          h = unwrap_loop h;
          h = card_step h;
          h = image_step h
      in bind (audio_step sound h) (\<lambda>h. Inr (ReplaceAll h ''  '' '' '', ja)))"


section \<open>The vocabulary of the properties\<close>



fun markers :: "piece list \<Rightarrow> string list" where
  "markers [] = []"
| "markers (Txt c # ps) = markers ps"
| "markers (Hit m g # ps) = m # markers ps"

fun unmatched :: "piece list \<Rightarrow> string" where
  "unmatched [] = []"
| "unmatched (Txt c # ps) = c # unmatched ps"
| "unmatched (Hit m g # ps) = unmatched ps"

text \<open>
  The translation: the candidates in the order of the code. \<open>container_text\<close> is the
  text of the first match of a translation pattern, \<open>cloze_translation\<close> the BACK half
  of a marker that has one, and \<open>first_nonempty\<close> the choice among them.
\<close>

definition first_nonempty :: "string list \<Rightarrow> string" where
  "first_nonempty xs = (case filter (\<lambda>x. x \<noteq> []) xs of [] \<Rightarrow> [] | x # _ \<Rightarrow> x)"










definition sound_text :: "string \<Rightarrow> string" where
  \<open>sound_text sound =
     (let s = Trim sound ''" '' in
      if HasPrefix s ''[sound:'' then s
      else case Index s ''[sound:'' of Some i \<Rightarrow> drop i s | None \<Rightarrow> s)\<close>

definition audio_div :: "string \<Rightarrow> string" where
  \<open>audio_div ss =
     ''<div class="dc-audio" style="padding:0.4rem;margin-top:0.25rem;">'' @ ss @ ''</div>''\<close>


section \<open>Matching, step by step\<close>

























subsection \<open>The first way to match\<close>




lemma concat_map_assoc:
  "concat (map f (concat (map g xs))) = concat (map (\<lambda>x. concat (map f (g x))) xs)"
  by (induction xs) simp_all

lemma run_Seq_assoc: "run (Seq (Seq a b) c) st = run (Seq a (Seq b c)) st"
proof -
  have "run (Seq b c) = (\<lambda>x. concat (map (run c) (run b x)))" by (rule ext) simp
  then show ?thesis by (simp add: concat_map_assoc)
qed






lemma run_starts_lit:
  assumes "(p', s', g') \<in> set (run (cat (lit (c # v) # rs)) (p, s, g))"
  shows "length s' < length s"
proof -
  from assms obtain y1 where
    y1: "y1 \<in> set (run (Lit c) (p, s, g))" and y: "(p', s', g') \<in> set (run (Seq (lit v) (cat rs)) y1)"
    unfolding cat_Cons lit_Cons run_Seq_assoc set_run_Seq by blast
  obtain p1 s1 g1 where e: "y1 = (p1, s1, g1)" by (cases y1)
  from y1[unfolded e] have "length s1 < length s" using run_Lit_shorter by blast
  moreover from y[unfolded e] have "length s' \<le> length s1" using run_shorter by blast
  ultimately show ?thesis by simp
qed











lemma space_stop:
  "c \<notin> set [CHR 0x09, CHR 0x0A, CHR 0x0C, CHR 0x0D, CHR 0x20] \<Longrightarrow>
     first_char (c # t) = None \<or> (\<exists>x. first_char (c # t) = Some x \<and> \<not> in_cls space x)"
  by (simp add: first_char_def space_def)


lemma run_Eps_Seq: "run (Seq Eps b) st = run b st"
  by simp







subsection \<open>The search from left to right\<close>








subsection \<open>The card pattern on a div tag\<close>










subsection \<open>The cloze pattern on a marker\<close>










subsection \<open>The pattern of the translation div on such a div\<close>







section \<open>Properties of the steps\<close>

subsection \<open>The sound step never panics\<close>


lemma Index_bound: "Index s sub = Some i \<Longrightarrow> i + length sub \<le> length s \<and> HasPrefix (drop i s) sub"
proof (induction s arbitrary: i)
  case Nil
  then show ?case by (auto simp: HasPrefix_def split: if_splits)
next
  case (Cons c cs)
  show ?case
  proof (cases "HasPrefix (c # cs) sub")
    case True
    with Cons.prems have "i = 0" by simp
    moreover from True have "length sub \<le> length (c # cs)"
      by (metis HasPrefix_def length_take min.cobounded1)
    ultimately show ?thesis using True by simp
  next
    case False
    with Cons.prems obtain j where "Index cs sub = Some j" "i = Suc j" by auto
    with Cons.IH[of j] show ?thesis by simp
  qed
qed

lemma Index_at:
  "Index (pre @ s) sub = Some (length pre) \<Longrightarrow> Index s sub = Some 0"
proof (induction pre)
  case Nil
  then show ?case by simp
next
  case (Cons c pre)
  then show ?case by (auto split: if_splits)
qed

lemma bind_Inr [simp]: "bind (Inr v) f = f v"
  by (simp add: bind_def)

lemma sound_slice:
  "(if \<not> HasPrefix s ''[sound:'' then
      (case Index s ''[sound:'' of Some i \<Rightarrow> slice_from s i | None \<Rightarrow> Inr s)
    else Inr s) =
   Inr (if HasPrefix s ''[sound:'' then s
        else case Index s ''[sound:'' of Some i \<Rightarrow> drop i s | None \<Rightarrow> s)"
proof (cases "Index s ''[sound:''")
  case None
  then show ?thesis by simp
next
  case (Some i)
  then have "i \<le> length s" using Index_bound by fastforce
  with Some show ?thesis by (simp add: slice_from_def)
qed

lemma audio_step_eq:
  \<open>audio_step sound h =
     Inr (if Trim sound ''" '' = [] then h
          else case Index h ''<div class="dc-line"'' of
                 None \<Rightarrow> h
               | Some idx \<Rightarrow>
                   (case Index (drop idx h) ''</div>'' of
                      None \<Rightarrow> h
                    | Some e \<Rightarrow> take (idx + e + length ''</div>'') h
                                @ audio_div (sound_text sound)
                                @ drop (idx + e + length ''</div>'') h))\<close>
proof (cases \<open>Trim sound ''" '' = []\<close>)
  case True
  then show ?thesis by (simp add: audio_step_def)
next
  case ne: False
  show ?thesis
  proof (cases \<open>Index h ''<div class="dc-line"''\<close>)
    case None
    with ne show ?thesis
      unfolding audio_step_def Let_def sound_slice by simp
  next
    case (Some idx)
    then have idx: "idx \<le> length h" using Index_bound by fastforce
    show ?thesis
    proof (cases \<open>Index (drop idx h) ''</div>''\<close>)
      case None
      with ne Some idx show ?thesis
        unfolding audio_step_def Let_def sound_slice by (simp add: slice_from_def)
    next
      case e: (Some e)
      then have "e + 6 \<le> length (drop idx h)" using Index_bound by fastforce
      with idx have "idx + e + 6 \<le> length h" by simp
      with ne Some idx e show ?thesis
        unfolding audio_step_def Let_def sound_slice
        by (simp add: slice_from_def slice_to_def sound_text_def audio_div_def Let_def)
    qed
  qed
qed

lemma audio_step_Inr: "\<exists>h'. audio_step sound h = Inr h'"
  unfolding audio_step_eq by blast

lemma transform_last_step:
  "\<exists>h' ja. transform unesc h sound color = Inr (ReplaceAll h' ''  '' '' '', ja)"
proof -
  obtain ja1 h1 where 1: "extract_translation unesc (strip_style h) = (ja1, h1)"
    by (cases "extract_translation unesc (strip_style h)")
  obtain ja2 h2 where 2: "cloze_step unesc color ja1 h1 = (ja2, h2)"
    by (cases "cloze_step unesc color ja1 h1")
  obtain h' where 3: "audio_step sound (image_step (card_step (unwrap_loop h2))) = Inr h'"
    using audio_step_Inr by blast
  from 1 2 3 have "transform unesc h sound color = Inr (ReplaceAll h' ''  '' '' '', ja2)"
    by (simp add: transform_def)
  then show ?thesis by blast
qed

lemma transform_no_panic: "\<exists>r. transform unesc h sound color = Inr r"
  using transform_last_step[of unesc h sound color] by blast


subsection \<open>The loop of step 3.5\<close>


lemma unwrap_loop_unfold:
  "unwrap_loop h = (if unwrap_pass h = h then h else unwrap_loop (unwrap_pass h))"
  using unwrap_loop.simps[of h] by (simp add: Let_def)

lemma unwrap_loop_fixed: "unwrap_pass (unwrap_loop h) = unwrap_loop h"
proof (induction h rule: unwrap_loop.induct)
  case (1 h)
  show ?case
  proof (cases "unwrap_pass h = h")
    case True
    then have "unwrap_loop h = h" using unwrap_loop_unfold[of h] by simp
    with True show ?thesis by simp
  next
    case False
    then have "unwrap_loop h = unwrap_loop (unwrap_pass h)"
      using unwrap_loop_unfold[of h] by simp
    with 1[OF refl refl False] show ?thesis by simp
  qed
qed

lemma unwrap_loop_id: "unwrap_pass h = h \<Longrightarrow> unwrap_loop h = h"
  using unwrap_loop_unfold[of h] by simp


text \<open>
  Claim C6. The decorative-unwrap pass, which removes the \<open>dc-down\<close> and \<open>dc-gap\<close>
  spans round after round until a round changes nothing, is idempotent: run on its own
  output it changes nothing, and neither does one more round.
\<close>

theorem unwrap_idempotent:
  "unwrap_loop (unwrap_loop h) = unwrap_loop h \<and> unwrap_pass (unwrap_loop h) = unwrap_loop h"
  using unwrap_loop_fixed unwrap_loop_id by simp

lemma unwrap_loop_rounds: "\<exists>n\<le>length h. unwrap_loop h = (unwrap_pass ^^ n) h"
proof (induction h rule: unwrap_loop.induct)
  case (1 h)
  show ?case
  proof (cases "unwrap_pass h = h")
    case True
    then have "unwrap_loop h = (unwrap_pass ^^ 0) h" by (simp add: unwrap_loop_id)
    then show ?thesis by blast
  next
    case False
    then have eq: "unwrap_loop h = unwrap_loop (unwrap_pass h)"
      using unwrap_loop_unfold[of h] by simp
    from 1[OF refl refl False] obtain n where
      n: "n \<le> length (unwrap_pass h)" "unwrap_loop (unwrap_pass h) = (unwrap_pass ^^ n) (unwrap_pass h)"
      by blast
    from False have "length (unwrap_pass h) < length h" by (rule unwrap_pass_shorter)
    with n have "Suc n \<le> length h" by simp
    moreover from eq n have "unwrap_loop h = (unwrap_pass ^^ Suc n) h"
      by (simp add: funpow_swap1)
    ultimately show ?thesis by blast
  qed
qed

lemma transform_empty: "transform unesc [] [] color = Inr ([], [])"
  by (simp add: transform_def strip_style_def ReplaceAllString_def extract_translation_def
      FindStringSubmatch_def cloze_step_def ReplaceAllStringFunc_def unwrap_loop_id
      unwrap_pass_def card_step_def image_step_def audio_step_def Trim_def)


text \<open>
  Claim C4. \<open>transform\<close> is total: for all strings it returns a pair of strings and
  does not panic (no slice of step 6 is out of range); the loop of step 3.5 stops after
  at most as many rounds as the markup has bytes; on the empty markup and the empty sound
  the result is the pair of empty strings.
\<close>

theorem transform_total:
  "(\<exists>out ja. transform unesc h sound color = Inr (out, ja)) \<and>
   (\<exists>n\<le>length h. unwrap_loop h = (unwrap_pass ^^ n) h) \<and>
   transform unesc [] [] color = Inr ([], [])"
  using transform_no_panic[of unesc h sound color] unwrap_loop_rounds[of h] transform_empty
  by auto


subsection \<open>The last step\<close>











subsection \<open>A pattern that matches nowhere\<close>










subsection \<open>The translation\<close>



lemma unmatched_Txt [simp]: "unmatched (map Txt s @ ps) = s @ unmatched ps"
  by (induction s) auto

lemma markers_Txt [simp]: "markers (map Txt s) = []"
  by (induction s) auto



lemma first_nonempty_Nil [simp]: "first_nonempty [] = []"
  by (simp add: first_nonempty_def)
































subsection \<open>The cloze markers\<close>













subsection \<open>The cards\<close>






subsection \<open>The sound\<close>


lemma Index_None_Cons: "Index (c # cs) sub = None \<Longrightarrow> Index cs sub = None"
  by (auto split: if_splits)







end
